theory Spec2Isabelle
  imports Main
begin

section \<open>Python values\<close>

text \<open>
  A Python \<^verbatim>\<open>str\<close> is a \<^typ>\<open>string\<close>: a list of characters, each \<^typ>\<open>char\<close>
  standing for the code point of the same number (0 to 255). The string methods below
  are the ones of the Python standard library, on that range of code points.
\<close>

text \<open>\<^verbatim>\<open>str.isspace\<close> on one character: the white space below code point 256.\<close>

definition whitespace :: "char list" where
  "whitespace =
     [CHR 0x09, CHR 0x0A, CHR 0x0B, CHR 0x0C, CHR 0x0D, CHR 0x1C, CHR 0x1D, CHR 0x1E,
      CHR 0x1F, CHR 0x20, CHR 0x85, CHR 0xA0]"

definition isspace :: "char \<Rightarrow> bool" where
  "isspace c = (c \<in> set whitespace)"

text \<open>\<^verbatim>\<open>str.lstrip()\<close>, \<^verbatim>\<open>str.rstrip()\<close> and \<^verbatim>\<open>str.strip()\<close> with no argument.\<close>

definition lstrip :: "string \<Rightarrow> string" where
  "lstrip s = dropWhile isspace s"

definition rstrip :: "string \<Rightarrow> string" where
  "rstrip s = rev (dropWhile isspace (rev s))"

definition strip :: "string \<Rightarrow> string" where
  "strip s = rstrip (lstrip s)"

text \<open>
  \<^verbatim>\<open>str.lower()\<close>: the capital letters A to Z and the capital letters of the Latin-1
  block (0xC0 to 0xDE, the multiplication sign 0xD7 apart) become the small letter 32
  code points up; every other character stays.
\<close>

definition uppercase :: "char list" where
  "uppercase =
     ''ABCDEFGHIJKLMNOPQRSTUVWXYZ'' @
     [CHR 0xC0, CHR 0xC1, CHR 0xC2, CHR 0xC3, CHR 0xC4, CHR 0xC5, CHR 0xC6, CHR 0xC7,
      CHR 0xC8, CHR 0xC9, CHR 0xCA, CHR 0xCB, CHR 0xCC, CHR 0xCD, CHR 0xCE, CHR 0xCF,
      CHR 0xD0, CHR 0xD1, CHR 0xD2, CHR 0xD3, CHR 0xD4, CHR 0xD5, CHR 0xD6, CHR 0xD8,
      CHR 0xD9, CHR 0xDA, CHR 0xDB, CHR 0xDC, CHR 0xDD, CHR 0xDE]"

definition lowercase :: "char list" where
  "lowercase =
     ''abcdefghijklmnopqrstuvwxyz'' @
     [CHR 0xE0, CHR 0xE1, CHR 0xE2, CHR 0xE3, CHR 0xE4, CHR 0xE5, CHR 0xE6, CHR 0xE7,
      CHR 0xE8, CHR 0xE9, CHR 0xEA, CHR 0xEB, CHR 0xEC, CHR 0xED, CHR 0xEE, CHR 0xEF,
      CHR 0xF0, CHR 0xF1, CHR 0xF2, CHR 0xF3, CHR 0xF4, CHR 0xF5, CHR 0xF6, CHR 0xF8,
      CHR 0xF9, CHR 0xFA, CHR 0xFB, CHR 0xFC, CHR 0xFD, CHR 0xFE]"

definition lower_char :: "char \<Rightarrow> char" where
  "lower_char c = (case map_of (zip uppercase lowercase) c of None \<Rightarrow> c | Some l \<Rightarrow> l)"

definition lower :: "string \<Rightarrow> string" where
  "lower s = map lower_char s"

text \<open>\<^verbatim>\<open>s.startswith(p)\<close>.\<close>

definition startswith :: "string \<Rightarrow> string \<Rightarrow> bool" where
  "startswith s p = (take (length p) s = p)"

text \<open>
  \<^verbatim>\<open>s.split(sep)\<close> for a separator of one character: the pieces between the
  separators, in order; the empty string gives one empty piece.
\<close>

fun split :: "char \<Rightarrow> string \<Rightarrow> string list" where
  "split sep [] = [[]]"
| "split sep (c # cs) =
     (if c = sep then [] # split sep cs
      else (case split sep cs of
              [] \<Rightarrow> [[c]]
            | l # ls \<Rightarrow> (c # l) # ls))"

text \<open>
  \<^verbatim>\<open>s.replace(old, new)\<close>: every occurrence of \<open>old\<close> in \<open>s\<close>, found from the left
  and not overlapping, becomes \<open>new\<close>. For an empty \<open>old\<close> Python puts \<open>new\<close> before
  every character and at the end.
\<close>

function replace_from :: "string \<Rightarrow> string \<Rightarrow> string \<Rightarrow> string" where
  "replace_from s old new =
     (if s = [] then []
      else if old \<noteq> [] \<and> startswith s old
           then new @ replace_from (drop (length old) s) old new
           else hd s # replace_from (tl s) old new)"
  by pat_completeness auto
termination
  by (relation "measure (\<lambda>(s, old, new). length s)") auto

definition replace :: "string \<Rightarrow> string \<Rightarrow> string \<Rightarrow> string" where
  "replace s old new =
     (if old = [] then new @ concat (map (\<lambda>c. c # new) s)
      else replace_from s old new)"

text \<open>
  The values an attribute of a response object can hold, as far as the program looks at
  them: it reads the text of a \<^verbatim>\<open>str\<close> and passes every other value on unread.
\<close>

datatype pyval =
    PyNone
  | PyStr string
  | PyInt int
  | PyList "pyval list"
  | PyDict "(string \<times> pyval) list"

text \<open>
  An object as the program sees it: its attributes by name, and the text \<^verbatim>\<open>str(obj)\<close>
  gives. \<^verbatim>\<open>hasattr(obj, name)\<close> and \<^verbatim>\<open>getattr(obj, name, default)\<close> read the attributes.
\<close>

record pyobject =
  attrs :: "(string \<times> pyval) list"
  str_of :: string

definition hasattr :: "pyobject \<Rightarrow> string \<Rightarrow> bool" where
  "hasattr obj name = (map_of (attrs obj) name \<noteq> None)"

definition getattr :: "pyobject \<Rightarrow> string \<Rightarrow> pyval \<Rightarrow> pyval" where
  "getattr obj name dflt =
     (case map_of (attrs obj) name of None \<Rightarrow> dflt | Some v \<Rightarrow> v)"

text \<open>The exceptions the program raises, catches or lets through.\<close>

datatype exn =
    OverloadedError
  | AuthenticationError
  | ValueError
  | AttributeError
  | KeyError string
  | GraphRecursionError
  | Exception string
  | BaseException string

section \<open>agents.py: the retry wrapper and the three agents\<close>

text \<open>
  What the program does besides computing: calls of the wrapped function, sleeps and
  printed lines, in the order they happen. A printed line is kept by what it reports
  (\<open>Decision d\<close> is the line showing \<^verbatim>\<open>decision.upper()\<close> for the decision \<open>d\<close>).
\<close>

datatype line =
    Retrying int
  | Authentication_error
  | Error exn
  | Analyzing
  | Decision string
  | Using_code_expert
  | Using_general_knowledge

datatype event = Invoke | Sleep int | Print line

text \<open>
  The wrapped function \<^verbatim>\<open>func\<close> takes no argument and reaches a remote service, so
  one call can differ from the next: \<open>func k\<close> is what its call number \<open>k\<close> (from 0)
  does, raising (\<open>Inl\<close>) or returning (\<open>Inr\<close>).
\<close>

type_synonym 'a operation = "nat \<Rightarrow> exn + 'a"

text \<open>\<^verbatim>\<open>range(n)\<close>: empty for \<open>n \<le> 0\<close>.\<close>

definition py_range :: "int \<Rightarrow> int list" where
  "py_range n = map int [0..<nat n]"

text \<open>\<^verbatim>\<open>time.sleep(delay)\<close> raises \<^verbatim>\<open>ValueError\<close> on a negative delay.\<close>

text \<open>
  The loop of \<^verbatim>\<open>retry_with_backoff\<close> over the attempts still to make, \<open>calls\<close>
  counting the calls of \<open>func\<close> made so far. The result is what the function raises or
  returns (\<open>Inr None\<close>: the loop ended and the function returned \<^verbatim>\<open>None\<close>) and the
  events from here on.
\<close>

fun retry_loop :: "'a operation \<Rightarrow> int \<Rightarrow> int \<Rightarrow> int list \<Rightarrow> nat \<Rightarrow> (exn + 'a option) \<times> event list" where
  "retry_loop func max_retries initial_delay [] calls = (Inr None, [])"
| "retry_loop func max_retries initial_delay (attempt # rest) calls =
     (case func calls of
        Inr v \<Rightarrow> (Inr (Some v), [Invoke])
      | Inl e \<Rightarrow>
          (case e of
             OverloadedError \<Rightarrow>
               if attempt = max_retries - 1 then (Inl e, [Invoke])
               else (let delay = initial_delay * 2 ^ nat attempt
                     in if delay < 0 then (Inl ValueError, [Invoke, Print (Retrying delay)])
                        else (let (r, evs) = retry_loop func max_retries initial_delay rest (Suc calls)
                              in (r, [Invoke, Print (Retrying delay), Sleep delay] @ evs)))
           | AuthenticationError \<Rightarrow> (Inl e, [Invoke, Print Authentication_error])
           | BaseException m \<Rightarrow> (Inl e, [Invoke])
           | _ \<Rightarrow> (Inl e, [Invoke, Print (Error e)])))"

definition retry_with_backoff :: "'a operation \<Rightarrow> int \<Rightarrow> int \<Rightarrow> (exn + 'a option) \<times> event list" where
  "retry_with_backoff func max_retries initial_delay =
     retry_loop func max_retries initial_delay (py_range max_retries) 0"

text \<open>The sleeps among the events, in order, and the number of calls of \<open>func\<close>.\<close>

fun sleeps :: "event list \<Rightarrow> int list" where
  "sleeps [] = []"
| "sleeps (Sleep d # evs) = d # sleeps evs"
| "sleeps (ev # evs) = sleeps evs"

fun invocations :: "event list \<Rightarrow> nat" where
  "invocations [] = 0"
| "invocations (Invoke # evs) = Suc (invocations evs)"
| "invocations (ev # evs) = invocations evs"

text \<open>
  The state of the workflow is a dictionary with the keys \<^verbatim>\<open>input\<close>, \<^verbatim>\<open>output\<close> and
  \<^verbatim>\<open>decision\<close> (\<^verbatim>\<open>AgentState\<close> in graph.py), each present or not; the dictionary an
  agent returns has the same shape. Reading an absent key raises \<^verbatim>\<open>KeyError\<close>.
\<close>

record AgentState =
  input :: "string option"
  "output" :: "pyobject option"
  decision :: "string option"

datatype node = analyze | code_agent | generic_agent

text \<open>
  The language model behind \<^verbatim>\<open>chain.invoke\<close>: for the prompt of a node and a question,
  what call number \<open>k\<close> does. Each agent wraps it in \<^verbatim>\<open>invoke_chain\<close>, which reads
  \<^verbatim>\<open>state["input"]\<close> first.
\<close>

type_synonym llm = "node \<Rightarrow> string \<Rightarrow> nat \<Rightarrow> exn + pyobject"

definition invoke_chain :: "llm \<Rightarrow> node \<Rightarrow> AgentState \<Rightarrow> pyobject operation" where
  "invoke_chain chain n state k =
     (case input state of
        None \<Rightarrow> Inl (KeyError ''input'')
      | Some question \<Rightarrow> chain n question k)"

text \<open>
  \<^verbatim>\<open>analyze_question\<close>. \<^verbatim>\<open>response.content.strip().lower()\<close> needs a response with a
  \<^verbatim>\<open>content\<close> attribute that is a \<^verbatim>\<open>str\<close>, and raises \<^verbatim>\<open>AttributeError\<close> otherwise.
\<close>

definition analyze_question :: "llm \<Rightarrow> AgentState \<Rightarrow> (exn + AgentState) \<times> event list" where
  "analyze_question chain state =
     (let (r, evs) = retry_with_backoff (invoke_chain chain analyze state) 3 1
      in case r of
           Inl e \<Rightarrow> (Inl e, Print Analyzing # evs)
         | Inr None \<Rightarrow> (Inl AttributeError, Print Analyzing # evs)
         | Inr (Some response) \<Rightarrow>
             (case map_of (attrs response) ''content'' of
                Some (PyStr body) \<Rightarrow>
                  (let d = lower (strip body)
                   in case input state of
                        None \<Rightarrow> (Inl (KeyError ''input''), Print Analyzing # evs @ [Print (Decision d)])
                      | Some question \<Rightarrow>
                          (Inr \<lparr>input = Some question, output = None, decision = Some d\<rparr>,
                           Print Analyzing # evs @ [Print (Decision d)]))
              | _ \<Rightarrow> (Inl AttributeError, Print Analyzing # evs)))"

text \<open>\<^verbatim>\<open>answer_code_question\<close> and \<^verbatim>\<open>answer_generic_question\<close>.\<close>

definition answer_code_question :: "llm \<Rightarrow> AgentState \<Rightarrow> (exn + AgentState) \<times> event list" where
  "answer_code_question chain state =
     (let (r, evs) = retry_with_backoff (invoke_chain chain code_agent state) 3 1
      in case r of
           Inl e \<Rightarrow> (Inl e, Print Using_code_expert # evs)
         | Inr response \<Rightarrow>
             (Inr \<lparr>input = None, output = response, decision = None\<rparr>,
              Print Using_code_expert # evs))"

definition answer_generic_question :: "llm \<Rightarrow> AgentState \<Rightarrow> (exn + AgentState) \<times> event list" where
  "answer_generic_question chain state =
     (let (r, evs) = retry_with_backoff (invoke_chain chain generic_agent state) 3 1
      in case r of
           Inl e \<Rightarrow> (Inl e, Print Using_general_knowledge # evs)
         | Inr response \<Rightarrow>
             (Inr \<lparr>input = None, output = response, decision = None\<rparr>,
              Print Using_general_knowledge # evs))"

section \<open>graph.py: the workflow graph\<close>

text \<open>
  \<^verbatim>\<open>create_graph\<close> gives the graph library three nodes, the entry point, a conditional
  edge out of \<^verbatim>\<open>analyze\<close> and an edge from each answering agent to \<^verbatim>\<open>END\<close>. The
  library runs the node it is at, writes the dictionary the node returns into the state,
  key by key, and follows the edge out of the node.
\<close>

datatype target = Goto node | END

definition entry_point :: node where
  "entry_point = analyze"

definition node_function :: "node \<Rightarrow> llm \<Rightarrow> AgentState \<Rightarrow> (exn + AgentState) \<times> event list" where
  "node_function n =
     (case n of
        analyze \<Rightarrow> analyze_question
      | code_agent \<Rightarrow> answer_code_question
      | generic_agent \<Rightarrow> answer_generic_question)"

text \<open>The mapping given with the conditional edge, from the decision to the next node.\<close>

definition path_map :: "(string \<times> node) list" where
  "path_map = [(''code'', code_agent), (''general'', generic_agent)]"

text \<open>
  The conditional edge: the selector \<^verbatim>\<open>lambda x: x["decision"]\<close> reads the state, and
  the library indexes the mapping with what the selector returns. The mapping is a Python
  dictionary, and indexing a dictionary with a key it does not have raises
  \<^verbatim>\<open>KeyError\<close> with that key.
\<close>

definition conditional_edge :: "AgentState \<Rightarrow> exn + target" where
  "conditional_edge x =
     (case decision x of
        None \<Rightarrow> Inl (KeyError ''decision'')
      | Some d \<Rightarrow>
          (case map_of path_map d of
             None \<Rightarrow> Inl (KeyError d)
           | Some n \<Rightarrow> Inr (Goto n)))"

definition edge :: "node \<Rightarrow> AgentState \<Rightarrow> exn + target" where
  "edge n x =
     (case n of
        analyze \<Rightarrow> conditional_edge x
      | code_agent \<Rightarrow> Inr END
      | generic_agent \<Rightarrow> Inr END)"

definition write_state :: "AgentState \<Rightarrow> AgentState \<Rightarrow> AgentState" where
  "write_state state returned =
     \<lparr>input = (case input returned of None \<Rightarrow> input state | Some v \<Rightarrow> Some v),
      output = (case output returned of None \<Rightarrow> output state | Some v \<Rightarrow> Some v),
      decision = (case decision returned of None \<Rightarrow> decision state | Some v \<Rightarrow> Some v)\<rparr>"

text \<open>
  One run of the compiled graph from a node, for at most \<open>limit\<close> steps (the library
  stops a run at its recursion limit, 25 unless the caller sets it, with
  \<^verbatim>\<open>GraphRecursionError\<close>). The result is the final state or the exception that ended the
  run, with the nodes run, in order, each with its events.
\<close>

fun run_graph :: "nat \<Rightarrow> llm \<Rightarrow> node \<Rightarrow> AgentState \<Rightarrow> (exn + AgentState) \<times> (node \<times> event list) list" where
  "run_graph 0 chain n state = (Inl GraphRecursionError, [])"
| "run_graph (Suc limit) chain n state =
     (case node_function n chain state of
        (Inl e, evs) \<Rightarrow> (Inl e, [(n, evs)])
      | (Inr returned, evs) \<Rightarrow>
          (let state' = write_state state returned
           in case edge n state' of
                Inl e \<Rightarrow> (Inl e, [(n, evs)])
              | Inr END \<Rightarrow> (Inr state', [(n, evs)])
              | Inr (Goto n') \<Rightarrow>
                  (let (r, steps) = run_graph limit chain n' state'
                   in (r, (n, evs) # steps))))"

text \<open>\<^verbatim>\<open>graph.invoke({"input": question})\<close>, as \<^verbatim>\<open>process_question\<close> calls it.\<close>

definition graph_invoke :: "llm \<Rightarrow> string \<Rightarrow> (exn + AgentState) \<times> (node \<times> event list) list" where
  "graph_invoke chain question =
     run_graph 25 chain entry_point \<lparr>input = Some question, output = None, decision = None\<rparr>"

definition nodes_run :: "(node \<times> event list) list \<Rightarrow> node list" where
  "nodes_run steps = map fst steps"

section \<open>main.py: the response parser\<close>

datatype section_name = main_answer_section | supporting_details_section

record content_fields =
  main_answer :: string
  supporting_details :: "string list"

record metadata_fields =
  response_id :: pyval
  model :: pyval
  run_id :: pyval
  stop_reason :: pyval
  token_usage :: pyval

record structured =
  content :: content_fields
  metadata :: metadata_fields

text \<open>
  The body of the loop of \<^verbatim>\<open>parse_response\<close> on one line: the state is the current
  section (\<open>None\<close> at the start) and the two content fields.
\<close>

definition parse_line :: "section_name option \<times> content_fields \<Rightarrow> string \<Rightarrow> section_name option \<times> content_fields" where
  "parse_line st raw_line =
     (let current_section = fst st; result = snd st; line = strip raw_line
      in if line = [] then st
         else if startswith line ''MAIN_ANSWER:''
              then (Some main_answer_section,
                    result\<lparr>main_answer := strip (replace line ''MAIN_ANSWER:'' [])\<rparr>)
         else if startswith line ''SUPPORTING_DETAILS:''
              then (Some supporting_details_section, result)
         else if startswith line ''-'' \<and> current_section = Some supporting_details_section
              then (current_section,
                    result\<lparr>supporting_details := supporting_details result @ [strip (drop 1 line)]\<rparr>)
         else st)"

fun parse_lines :: "section_name option \<times> content_fields \<Rightarrow> string list \<Rightarrow> section_name option \<times> content_fields" where
  "parse_lines st [] = st"
| "parse_lines st (line # lines) = parse_lines (parse_line st line) lines"

definition initial_content :: "section_name option \<times> content_fields" where
  "initial_content = (None, \<lparr>main_answer = [], supporting_details = []\<rparr>)"

text \<open>
  \<^verbatim>\<open>parse_response\<close>. The text is the \<^verbatim>\<open>content\<close> attribute when the object has
  one, and \<^verbatim>\<open>str(response_text)\<close> otherwise; \<^verbatim>\<open>content.strip()\<close> exists on a
  \<^verbatim>\<open>str\<close> only, so any other value of the attribute raises \<^verbatim>\<open>AttributeError\<close>.
\<close>

definition parse_response :: "pyobject \<Rightarrow> exn + structured" where
  "parse_response response_text =
     (let content_val = (if hasattr response_text ''content''
                         then getattr response_text ''content'' PyNone
                         else PyStr (str_of response_text))
      in case content_val of
           PyStr body \<Rightarrow>
             (let lines = split CHR 0x0A (strip body);
                  meta = \<lparr>response_id = getattr response_text ''id'' (PyStr []),
                          model = getattr response_text ''model'' (PyStr []),
                          run_id = getattr response_text ''run_id'' (PyStr []),
                          stop_reason = getattr response_text ''stop_reason'' (PyStr []),
                          token_usage = getattr response_text ''usage'' (PyDict [])\<rparr>
              in Inr \<lparr>content = snd (parse_lines initial_content lines), metadata = meta\<rparr>)
         | _ \<Rightarrow> Inl AttributeError)"

section \<open>Properties of the retry wrapper\<close>

lemma sleeps_append: "sleeps (xs @ ys) = sleeps xs @ sleeps ys"
  by (induction xs rule: sleeps.induct) simp_all

lemma invocations_append: "invocations (xs @ ys) = invocations xs + invocations ys"
  by (induction xs rule: invocations.induct) simp_all

lemma py_range_empty: "max_retries \<le> 0 \<Longrightarrow> py_range max_retries = []"
  by (simp add: py_range_def)

lemma py_range_3: "py_range 3 = [0, 1, 2]"
  by (simp add: py_range_def upt_rec)

text \<open>
  As long as the calls raise \<^verbatim>\<open>OverloadedError\<close> and attempts are left, each round is
  a call, the notice and a sleep of \<open>initial_delay * 2 ^ attempt\<close>.
\<close>

lemma retry_loop_overloaded:
  assumes "\<forall>j. i \<le> j \<and> j < k \<longrightarrow> func j = Inl OverloadedError"
    and "k < n" and "i \<le> k" and "0 \<le> d"
  shows "retry_loop func (int n) d (map int [i..<n]) i =
     (fst (retry_loop func (int n) d (map int [k..<n]) k),
      concat (map (\<lambda>j. [Invoke, Print (Retrying (d * 2 ^ j)), Sleep (d * 2 ^ j)]) [i..<k]) @
      snd (retry_loop func (int n) d (map int [k..<n]) k))"
  using assms
proof (induction "k - i" arbitrary: i)
  case 0
  then show ?case by simp
next
  case (Suc m)
  then have ik: "i < k" and "i < n" by auto
  have this_call: "func i = Inl OverloadedError"
    using Suc.prems ik by simp
  have later: "retry_loop func (int n) d (map int [Suc i..<n]) (Suc i) =
     (fst (retry_loop func (int n) d (map int [k..<n]) k),
      concat (map (\<lambda>j. [Invoke, Print (Retrying (d * 2 ^ j)), Sleep (d * 2 ^ j)]) [Suc i..<k]) @
      snd (retry_loop func (int n) d (map int [k..<n]) k))"
    using Suc.hyps(1)[of "Suc i"] Suc.hyps(2) Suc.prems by auto
  have not_last: "int i \<noteq> int n - 1"
    using ik Suc.prems(2) by linarith
  have delay: "\<not> d * 2 ^ i < 0"
    using Suc.prems(4) by (simp add: mult_less_0_iff)
  show ?case
    using this_call later not_last delay ik \<open>i < n\<close>
    by (simp add: upt_conv_Cons Let_def)
qed

lemma retry_loop_fatal:
  assumes "func calls = Inl e" and "e \<noteq> OverloadedError"
  shows "fst (retry_loop func max_retries d (attempt # rest) calls) = Inl e
     \<and> sleeps (snd (retry_loop func max_retries d (attempt # rest) calls)) = []
     \<and> invocations (snd (retry_loop func max_retries d (attempt # rest) calls)) = 1"
  using assms by (cases e) simp_all

lemma sleeps_rounds:
  "sleeps (concat (map (\<lambda>j. [Invoke, Print (Retrying (d * 2 ^ j)), Sleep (d * 2 ^ j)]) js)) =
     map (\<lambda>j. d * 2 ^ j) js"
  by (induction js) simp_all

lemma invocations_rounds:
  "invocations (concat (map (\<lambda>j. [Invoke, Print (Retrying (d * 2 ^ j)), Sleep (d * 2 ^ j)]) js)) =
     length js"
  by (induction js) simp_all

text \<open>
  Claim C2. With \<open>max_retries = 3\<close> and \<open>initial_delay = 1\<close>, when the first two calls
  raise \<^verbatim>\<open>OverloadedError\<close>: if the third call returns \<open>v\<close>, the wrapper returns \<open>v\<close>
  after exactly two sleeps, of 1 and then 2; if the third call is overloaded too, the
  wrapper raises \<^verbatim>\<open>OverloadedError\<close> after the third call, having slept 1 and 2 before
  it and nothing after it, and calls the function no fourth time.
\<close>

theorem retry_timing_three_attempts:
  assumes "func 0 = Inl OverloadedError" and "func 1 = Inl OverloadedError"
  shows "(func 2 = Inr v \<longrightarrow>
            retry_with_backoff func 3 1 =
              (Inr (Some v),
               [Invoke, Print (Retrying 1), Sleep 1, Invoke, Print (Retrying 2), Sleep 2, Invoke]))
       \<and> (func 2 = Inl OverloadedError \<longrightarrow>
            retry_with_backoff func 3 1 =
              (Inl OverloadedError,
               [Invoke, Print (Retrying 1), Sleep 1, Invoke, Print (Retrying 2), Sleep 2, Invoke]))"
proof -
  have second: "func (Suc 0) = Inl OverloadedError"
    using assms(2) by simp
  have third: "func (Suc (Suc 0)) = func 2"
    by (simp add: numeral_2_eq_2)
  show ?thesis
    using assms(1) second by (simp add: retry_with_backoff_def py_range_3 third)
qed

theorem retry_timing_three_attempts_witness:
  "retry_with_backoff (\<lambda>k. if k < 2 then Inl OverloadedError else Inr (7 :: nat)) 3 1 =
     (Inr (Some 7),
      [Invoke, Print (Retrying 1), Sleep 1, Invoke, Print (Retrying 2), Sleep 2, Invoke])
   \<and> retry_with_backoff (\<lambda>k. (Inl OverloadedError :: exn + nat)) 3 1 =
     (Inl OverloadedError,
      [Invoke, Print (Retrying 1), Sleep 1, Invoke, Print (Retrying 2), Sleep 2, Invoke])"
  using retry_timing_three_attempts [of "\<lambda>k. if k < 2 then Inl OverloadedError else Inr (7 :: nat)" 7]
    retry_timing_three_attempts [of "\<lambda>k. (Inl OverloadedError :: exn + nat)" 0]
  by simp

text \<open>
  Claim C3. Whatever \<open>max_retries\<close> is, when a call of the wrapped function raises
  \<^verbatim>\<open>AuthenticationError\<close>, or any exception other than \<^verbatim>\<open>OverloadedError\<close>, the wrapper
  raises that exception at once: the failing call is the last call, and no sleep follows
  it. The call that fails is call number \<open>k\<close>, an attempt the loop still makes
  (\<open>k < max_retries\<close>); the \<open>k\<close> calls before it were overloaded, which is the only way
  the loop reaches it, and each of them was followed by its sleep.
\<close>

theorem fatal_failure_propagates_at_once:
  assumes "int k < max_retries"
    and "\<forall>j<k. func j = Inl OverloadedError"
    and "func k = Inl e" and "e \<noteq> OverloadedError"
    and "k = 0 \<or> 0 \<le> initial_delay"
  shows "fst (retry_with_backoff func max_retries initial_delay) = Inl e
     \<and> invocations (snd (retry_with_backoff func max_retries initial_delay)) = k + 1
     \<and> sleeps (snd (retry_with_backoff func max_retries initial_delay)) =
         map (\<lambda>j. initial_delay * 2 ^ j) [0..<k]"
proof -
  define n where "n = nat max_retries"
  have n: "int n = max_retries" "k < n"
    using assms(1) by (simp_all add: n_def)
  have unfold: "retry_with_backoff func max_retries initial_delay =
      retry_loop func (int n) initial_delay (map int [0..<n]) 0"
    by (simp add: retry_with_backoff_def py_range_def n n_def)
  have at_k: "[k..<n] = k # [Suc k..<n]"
    using n(2) by (simp add: upt_conv_Cons)
  have last: "fst (retry_loop func (int n) initial_delay (int k # map int [Suc k..<n]) k) = Inl e
     \<and> sleeps (snd (retry_loop func (int n) initial_delay (int k # map int [Suc k..<n]) k)) = []
     \<and> invocations (snd (retry_loop func (int n) initial_delay (int k # map int [Suc k..<n]) k)) = 1"
    using assms(3) assms(4) by (rule retry_loop_fatal)
  show ?thesis
  proof (cases "k = 0")
    case True
    then have "[0..<n] = 0 # [Suc 0..<n]"
      using at_k by simp
    then show ?thesis
      using last True by (simp add: unfold del: retry_loop.simps)
  next
    case False
    then have "0 \<le> initial_delay" using assms(5) by simp
    then have "retry_loop func (int n) initial_delay (map int [0..<n]) 0 =
       (fst (retry_loop func (int n) initial_delay (map int [k..<n]) k),
        concat (map (\<lambda>j. [Invoke, Print (Retrying (initial_delay * 2 ^ j)), Sleep (initial_delay * 2 ^ j)]) [0..<k]) @
        snd (retry_loop func (int n) initial_delay (map int [k..<n]) k))"
      using retry_loop_overloaded [of 0 k func n initial_delay] assms(2) n(2) by simp
    then show ?thesis
      using last
      by (simp add: unfold at_k sleeps_append invocations_append sleeps_rounds invocations_rounds
            del: retry_loop.simps)
  qed
qed

theorem fatal_failure_propagates_at_once_witness:
  "fst (retry_with_backoff (\<lambda>k. if k < 2 then Inl OverloadedError else (Inl AuthenticationError :: exn + unit)) 5 1) = Inl AuthenticationError
   \<and> invocations (snd (retry_with_backoff (\<lambda>k. if k < 2 then Inl OverloadedError else (Inl AuthenticationError :: exn + unit)) 5 1)) = 3
   \<and> sleeps (snd (retry_with_backoff (\<lambda>k. if k < 2 then Inl OverloadedError else (Inl AuthenticationError :: exn + unit)) 5 1)) = [1, 2]"
  using fatal_failure_propagates_at_once [of 2 5 "\<lambda>k. if k < 2 then Inl OverloadedError else (Inl AuthenticationError :: exn + unit)" AuthenticationError 1]
  by (simp add: upt_rec)


text \<open>
  Claim C10. With \<open>max_retries \<le> 0\<close> the loop body never runs: the wrapped function
  is not called, nothing is raised, and the wrapper returns \<^verbatim>\<open>None\<close>.
\<close>

theorem no_attempt_returns_none:
  "max_retries \<le> 0 \<Longrightarrow> retry_with_backoff func max_retries initial_delay = (Inr None, [])"
  by (simp add: retry_with_backoff_def py_range_empty)

theorem no_attempt_returns_none_witness:
  "retry_with_backoff (\<lambda>k. (Inr 7 :: exn + nat)) 0 1 = (Inr None, [])
   \<and> retry_with_backoff (\<lambda>k. (Inr 7 :: exn + nat)) (- 2) 1 = (Inr None, [])"
  using no_attempt_returns_none [of 0 "\<lambda>k. (Inr 7 :: exn + nat)" 1]
    no_attempt_returns_none [of "- 2" "\<lambda>k. (Inr 7 :: exn + nat)" 1]
  by simp

section \<open>Properties of the workflow graph\<close>

lemma conditional_edge_hit:
  "conditional_edge x = Inr t \<Longrightarrow>
     (decision x = Some ''code'' \<and> t = Goto code_agent)
     \<or> (decision x = Some ''general'' \<and> t = Goto generic_agent)"
  by (auto simp: conditional_edge_def path_map_def split: option.splits if_splits)

lemma conditional_edge_miss:
  "decision x = Some d \<Longrightarrow> d \<noteq> ''code'' \<Longrightarrow> d \<noteq> ''general'' \<Longrightarrow>
     conditional_edge x = Inl (KeyError d)"
  by (simp add: conditional_edge_def path_map_def)

lemma run_answering_agent:
  assumes "n \<noteq> analyze" and "0 < limit"
  shows "run_graph limit chain n state =
     (case node_function n chain state of
        (Inl e, evs) \<Rightarrow> (Inl e, [(n, evs)])
      | (Inr returned, evs) \<Rightarrow> (Inr (write_state state returned), [(n, evs)]))"
proof -
  obtain l where l: "limit = Suc l"
    using assms(2) by (cases limit) simp_all
  obtain r evs where "node_function n chain state = (r, evs)"
    by (cases "node_function n chain state")
  then show ?thesis
    using assms(1) by (cases r; cases n) (simp_all add: l edge_def)
qed

lemma nodes_run_answering_agent:
  assumes "n \<noteq> analyze" and "0 < limit"
  shows "snd (run_graph limit chain n state) = [(n, snd (node_function n chain state))]"
  by (simp add: run_answering_agent [OF assms] split: prod.splits sum.splits)

lemma run_analyze:
  assumes "1 < limit"
  shows "run_graph limit chain analyze state =
     (case analyze_question chain state of
        (Inl e, evs) \<Rightarrow> (Inl e, [(analyze, evs)])
      | (Inr returned, evs) \<Rightarrow>
          (case conditional_edge (write_state state returned) of
             Inl e \<Rightarrow> (Inl e, [(analyze, evs)])
           | Inr END \<Rightarrow> (Inr (write_state state returned), [(analyze, evs)])
           | Inr (Goto n) \<Rightarrow>
               (fst (run_graph (limit - 1) chain n (write_state state returned)),
                (analyze, evs) # snd (run_graph (limit - 1) chain n (write_state state returned)))))"
proof -
  obtain l where l: "limit = Suc (Suc l)"
    using assms by (cases limit; cases "limit - 1") simp_all
  show ?thesis
    unfolding l
    by (subst run_graph.simps(2))
       (simp add: node_function_def edge_def Let_def case_prod_unfold
          split: prod.splits sum.splits target.splits del: run_graph.simps(2))
qed

lemma graph_invoke_analyze:
  "graph_invoke chain question =
     (case analyze_question chain \<lparr>input = Some question, output = None, decision = None\<rparr> of
        (Inl e, evs) \<Rightarrow> (Inl e, [(analyze, evs)])
      | (Inr returned, evs) \<Rightarrow>
          (case conditional_edge (write_state \<lparr>input = Some question, output = None, decision = None\<rparr> returned) of
             Inl e \<Rightarrow> (Inl e, [(analyze, evs)])
           | Inr END \<Rightarrow> (Inr (write_state \<lparr>input = Some question, output = None, decision = None\<rparr> returned), [(analyze, evs)])
           | Inr (Goto n) \<Rightarrow>
               (fst (run_graph 24 chain n (write_state \<lparr>input = Some question, output = None, decision = None\<rparr> returned)),
                (analyze, evs) # snd (run_graph 24 chain n (write_state \<lparr>input = Some question, output = None, decision = None\<rparr> returned)))))"
proof -
  have "(1 :: nat) < 25" and diff: "(25 :: nat) - 1 = 24"
    by simp_all
  then show ?thesis
    unfolding graph_invoke_def entry_point_def
    by (simp only: run_analyze diff)
qed

text \<open>
  Claim C8. Every run of the graph, whatever the language model does, runs \<^verbatim>\<open>analyze\<close>
  first and once, and then at most one answering agent, once: the nodes run are
  \<^verbatim>\<open>analyze\<close> alone, \<^verbatim>\<open>analyze\<close> then the code agent, or \<^verbatim>\<open>analyze\<close> then the general
  agent. No run has both agents, and none reaches an agent without \<^verbatim>\<open>analyze\<close> before it.
\<close>

theorem one_classifier_one_handler:
  "nodes_run (snd (graph_invoke chain question)) = [analyze]
   \<or> nodes_run (snd (graph_invoke chain question)) = [analyze, code_agent]
   \<or> nodes_run (snd (graph_invoke chain question)) = [analyze, generic_agent]"
proof -
  let ?s = "\<lparr>input = Some question, output = None, decision = None\<rparr>"
  obtain r evs where a: "analyze_question chain ?s = (r, evs)"
    by (cases "analyze_question chain ?s")
  show ?thesis
  proof (cases r)
    case (Inl e)
    then show ?thesis
      using a by (simp add: graph_invoke_analyze nodes_run_def)
  next
    case (Inr returned)
    show ?thesis
    proof (cases "conditional_edge (write_state ?s returned)")
      case (Inl e)
      then show ?thesis
        using a Inr by (simp add: graph_invoke_analyze nodes_run_def)
    next
      case hit: (Inr t)
      then consider "t = Goto code_agent" | "t = Goto generic_agent"
        using conditional_edge_hit by blast
      then show ?thesis
        using a Inr hit
        by cases (simp_all add: graph_invoke_analyze nodes_run_def nodes_run_answering_agent)
    qed
  qed
qed

lemma retry_3_returns:
  "fst (retry_with_backoff func 3 1) \<noteq> Inr None"
proof -
  have "func (Suc (Suc 0)) = func 2"
    by (simp add: numeral_2_eq_2)
  then show ?thesis
    by (simp add: retry_with_backoff_def py_range_3 split: sum.splits exn.splits)
qed

lemma retry_without_input:
  assumes "input state = None"
  shows "fst (retry_with_backoff (invoke_chain chain n state) max_retries initial_delay) = Inl (KeyError ''input'')
     \<or> fst (retry_with_backoff (invoke_chain chain n state) max_retries initial_delay) = Inr None"
proof (cases "py_range max_retries")
  case Nil
  then show ?thesis by (simp add: retry_with_backoff_def)
next
  case (Cons a as)
  then show ?thesis
    using assms by (simp add: retry_with_backoff_def invoke_chain_def)
qed

lemma analyze_question_decision:
  assumes "fst (retry_with_backoff (invoke_chain chain analyze state) 3 1) = Inr (Some response)"
    and "map_of (attrs response) ''content'' = Some (PyStr body)"
  shows "\<exists>question. input state = Some question
     \<and> analyze_question chain state =
         (Inr \<lparr>input = Some question, output = None, decision = Some (lower (strip body))\<rparr>,
          Print Analyzing # snd (retry_with_backoff (invoke_chain chain analyze state) 3 1)
            @ [Print (Decision (lower (strip body)))])"
proof -
  obtain question where q: "input state = Some question"
    using assms(1) retry_without_input [of state chain analyze 3 1] by (cases "input state") auto
  obtain r evs where r: "retry_with_backoff (invoke_chain chain analyze state) 3 1 = (r, evs)"
    by (cases "retry_with_backoff (invoke_chain chain analyze state) 3 1")
  then have "r = Inr (Some response)"
    using assms(1) by simp
  then show ?thesis
    using q r assms(2) by (simp add: analyze_question_def Let_def)
qed

lemma graph_invoke_decided:
  assumes "analyze_question chain \<lparr>input = Some question, output = None, decision = None\<rparr> =
      (Inr \<lparr>input = Some question, output = None, decision = Some d\<rparr>, evs)"
  shows "graph_invoke chain question =
     (case map_of path_map d of
        None \<Rightarrow> (Inl (KeyError d), [(analyze, evs)])
      | Some n \<Rightarrow>
          (fst (run_graph 24 chain n \<lparr>input = Some question, output = None, decision = Some d\<rparr>),
           (analyze, evs) #
           snd (run_graph 24 chain n \<lparr>input = Some question, output = None, decision = Some d\<rparr>)))"
proof -
  have "write_state \<lparr>input = Some question, output = None, decision = None\<rparr>
      \<lparr>input = Some question, output = None, decision = Some d\<rparr> =
      \<lparr>input = Some question, output = None, decision = Some d\<rparr>"
    by (simp add: write_state_def)
  then show ?thesis
    using assms
    by (simp add: graph_invoke_analyze conditional_edge_def split: option.splits)
qed

text \<open>
  Claim C1. Take a question whose classifier call ends with a response of text \<open>body\<close>,
  so that the decision is \<open>lower (strip body)\<close>. If the decision is \<^verbatim>\<open>code\<close> the run goes
  from \<^verbatim>\<open>analyze\<close> to the code agent; if it is \<^verbatim>\<open>general\<close>, to the general agent; if it
  is anything else, the lookup in the mapping of the conditional edge fails, the run ends
  with \<^verbatim>\<open>KeyError\<close> carrying the decision, and no answering agent has run.
\<close>

theorem routing_by_decision:
  assumes "fst (retry_with_backoff (invoke_chain chain analyze \<lparr>input = Some question, output = None, decision = None\<rparr>) 3 1) = Inr (Some response)"
    and "map_of (attrs response) ''content'' = Some (PyStr body)"
  shows "(lower (strip body) = ''code'' \<longrightarrow>
            nodes_run (snd (graph_invoke chain question)) = [analyze, code_agent])
       \<and> (lower (strip body) = ''general'' \<longrightarrow>
            nodes_run (snd (graph_invoke chain question)) = [analyze, generic_agent])
       \<and> (lower (strip body) \<noteq> ''code'' \<and> lower (strip body) \<noteq> ''general'' \<longrightarrow>
            fst (graph_invoke chain question) = Inl (KeyError (lower (strip body)))
            \<and> nodes_run (snd (graph_invoke chain question)) = [analyze])"
proof -
  obtain evs where a: "analyze_question chain \<lparr>input = Some question, output = None, decision = None\<rparr> =
      (Inr \<lparr>input = Some question, output = None, decision = Some (lower (strip body))\<rparr>, evs)"
    using analyze_question_decision [OF assms] by auto
  note run = graph_invoke_decided [OF a]
  have code: "nodes_run (snd (graph_invoke chain question)) = [analyze, code_agent]"
    if "lower (strip body) = ''code''"
    using that by (simp add: run path_map_def nodes_run_def nodes_run_answering_agent)
  have general: "nodes_run (snd (graph_invoke chain question)) = [analyze, generic_agent]"
    if "lower (strip body) = ''general''"
    using that by (simp add: run path_map_def nodes_run_def nodes_run_answering_agent)
  have miss: "fst (graph_invoke chain question) = Inl (KeyError (lower (strip body)))
      \<and> nodes_run (snd (graph_invoke chain question)) = [analyze]"
    if "lower (strip body) \<noteq> ''code''" and "lower (strip body) \<noteq> ''general''"
    using that by (simp add: run path_map_def nodes_run_def)
  show ?thesis
    using code general miss by blast
qed

theorem routing_by_decision_witness:
  "nodes_run (snd (graph_invoke (\<lambda>n question k. Inr \<lparr>attrs = [(''content'', PyStr '' Code '')], str_of = []\<rparr>) ''q'')) = [analyze, code_agent]
   \<and> nodes_run (snd (graph_invoke (\<lambda>n question k. Inr \<lparr>attrs = [(''content'', PyStr ''GENERAL'')], str_of = []\<rparr>) ''q'')) = [analyze, generic_agent]
   \<and> fst (graph_invoke (\<lambda>n question k. Inr \<lparr>attrs = [(''content'', PyStr ''Technical'')], str_of = []\<rparr>) ''q'') = Inl (KeyError ''technical'')
   \<and> nodes_run (snd (graph_invoke (\<lambda>n question k. Inr \<lparr>attrs = [(''content'', PyStr ''Technical'')], str_of = []\<rparr>) ''q'')) = [analyze]"
proof -
  have ev: "lower (strip '' Code '') = ''code''" "lower (strip ''GENERAL'') = ''general''"
    "lower (strip ''Technical'') = ''technical''"
    by (simp_all add: lower_def lower_char_def uppercase_def lowercase_def strip_def lstrip_def
          rstrip_def isspace_def whitespace_def)
  have r: "\<And>body. fst (retry_with_backoff (invoke_chain (\<lambda>n question k. Inr \<lparr>attrs = [(''content'', PyStr body)], str_of = []\<rparr>) analyze
        \<lparr>input = Some ''q'', output = None, decision = None\<rparr>) 3 1)
      = Inr (Some \<lparr>attrs = [(''content'', PyStr body)], str_of = []\<rparr>)"
    by (simp add: retry_with_backoff_def py_range_3 invoke_chain_def)
  show ?thesis
    using routing_by_decision [OF r [of "'' Code ''"], of "'' Code ''"] routing_by_decision [OF r [of "''GENERAL''"], of "''GENERAL''"]
      routing_by_decision [OF r [of "''Technical''"], of "''Technical''"]
    by (simp add: ev)
qed

section \<open>Properties of the string methods\<close>

lemma lstrip_spec:
  "\<exists>pre. s = pre @ lstrip s \<and> (\<forall>c\<in>set pre. isspace c)
     \<and> (lstrip s \<noteq> [] \<longrightarrow> \<not> isspace (hd (lstrip s)))"
proof -
  have "s = takeWhile isspace s @ lstrip s"
    by (simp add: lstrip_def)
  moreover have "\<forall>c\<in>set (takeWhile isspace s). isspace c"
    by (auto dest: set_takeWhileD)
  moreover have "lstrip s \<noteq> [] \<longrightarrow> \<not> isspace (hd (lstrip s))"
    unfolding lstrip_def using hd_dropWhile by blast
  ultimately show ?thesis by blast
qed

lemma rstrip_spec:
  "\<exists>post. s = rstrip s @ post \<and> (\<forall>c\<in>set post. isspace c)
     \<and> (rstrip s \<noteq> [] \<longrightarrow> \<not> isspace (last (rstrip s)))"
proof -
  have "rstrip s @ rev (takeWhile isspace (rev s)) =
      rev (takeWhile isspace (rev s) @ dropWhile isspace (rev s))"
    by (simp only: rstrip_def rev_append)
  then have "s = rstrip s @ rev (takeWhile isspace (rev s))"
    by simp
  moreover have "\<forall>c\<in>set (rev (takeWhile isspace (rev s))). isspace c"
    by (auto dest: set_takeWhileD)
  moreover have "rstrip s \<noteq> [] \<longrightarrow> \<not> isspace (last (rstrip s))"
    unfolding rstrip_def using hd_dropWhile [of isspace "rev s"] by (simp add: last_rev)
  ultimately show ?thesis by blast
qed

lemma rstrip_keeps_head:
  "rstrip s \<noteq> [] \<Longrightarrow> hd (rstrip s) = hd s"
proof -
  obtain post where "s = rstrip s @ post" using rstrip_spec by blast
  then show "rstrip s \<noteq> [] \<Longrightarrow> hd (rstrip s) = hd s"
    by (metis hd_append2)
qed

lemma strip_spec:
  "\<exists>pre post. s = pre @ strip s @ post
     \<and> (\<forall>c\<in>set pre. isspace c) \<and> (\<forall>c\<in>set post. isspace c)
     \<and> (strip s \<noteq> [] \<longrightarrow> \<not> isspace (hd (strip s)) \<and> \<not> isspace (last (strip s)))"
proof -
  obtain pre where pre: "s = pre @ lstrip s" "\<forall>c\<in>set pre. isspace c"
    "lstrip s \<noteq> [] \<longrightarrow> \<not> isspace (hd (lstrip s))"
    using lstrip_spec by blast
  obtain post where post: "lstrip s = strip s @ post" "\<forall>c\<in>set post. isspace c"
    "strip s \<noteq> [] \<longrightarrow> \<not> isspace (last (strip s))"
    using rstrip_spec [of "lstrip s"] by (auto simp: strip_def)
  have "hd (strip s) = hd (lstrip s)" if "strip s \<noteq> []"
    using that rstrip_keeps_head [of "lstrip s"] by (simp add: strip_def)
  moreover have "lstrip s \<noteq> []" if "strip s \<noteq> []"
    using that by (auto simp: strip_def rstrip_def)
  ultimately have "strip s \<noteq> [] \<longrightarrow> \<not> isspace (hd (strip s))"
    using pre(3) by simp
  moreover have "s = pre @ strip s @ post"
    using pre(1) post(1) by metis
  ultimately show ?thesis
    using pre(2) post(2) post(3) by blast
qed

section \<open>Properties of the classifier\<close>

text \<open>
  Claim C9. When the classifier's call of the model ends with a response of text
  \<open>body\<close>, \<^verbatim>\<open>analyze_question\<close> returns the decision \<open>lower (strip body)\<close>, whatever that
  text is (nothing checks it against \<^verbatim>\<open>code\<close> and \<^verbatim>\<open>general\<close>), together with the input
  question as it was. \<open>strip body\<close> is \<open>body\<close> without the white space around it: \<open>body\<close>
  is white space, then \<open>strip body\<close>, then white space, and \<open>strip body\<close> neither starts
  nor ends with white space.
\<close>

theorem classifier_decision_is_normalized_text:
  assumes "fst (retry_with_backoff (invoke_chain chain analyze state) 3 1) = Inr (Some response)"
    and "map_of (attrs response) ''content'' = Some (PyStr body)"
  shows "fst (analyze_question chain state) =
           Inr \<lparr>input = input state, output = None, decision = Some (lower (strip body))\<rparr>
       \<and> input state \<noteq> None
       \<and> (\<exists>pre post. body = pre @ strip body @ post
             \<and> (\<forall>c\<in>set pre. isspace c) \<and> (\<forall>c\<in>set post. isspace c)
             \<and> (strip body \<noteq> [] \<longrightarrow>
                  \<not> isspace (hd (strip body)) \<and> \<not> isspace (last (strip body))))"
proof -
  obtain question where "input state = Some question"
    and "analyze_question chain state =
         (Inr \<lparr>input = Some question, output = None, decision = Some (lower (strip body))\<rparr>,
          Print Analyzing # snd (retry_with_backoff (invoke_chain chain analyze state) 3 1)
            @ [Print (Decision (lower (strip body)))])"
    using analyze_question_decision [OF assms] by blast
  then show ?thesis
    using strip_spec [of body] by (simp add: lower_def)
qed

theorem classifier_decision_is_normalized_text_witness:
  "fst (analyze_question (\<lambda>n question k. Inr \<lparr>attrs = [(''content'', PyStr ''  Maybe Code. '')], str_of = []\<rparr>)
          \<lparr>input = Some ''q'', output = None, decision = None\<rparr>) =
     Inr \<lparr>input = Some ''q'', output = None, decision = Some ''maybe code.''\<rparr>"
proof -
  have ev: "lower (strip ''  Maybe Code. '') = ''maybe code.''"
    by (simp add: lower_def lower_char_def uppercase_def lowercase_def strip_def lstrip_def
          rstrip_def isspace_def whitespace_def)
  have r: "fst (retry_with_backoff (invoke_chain (\<lambda>n question k. Inr \<lparr>attrs = [(''content'', PyStr ''  Maybe Code. '')], str_of = []\<rparr>) analyze
        \<lparr>input = Some ''q'', output = None, decision = None\<rparr>) 3 1)
      = Inr (Some \<lparr>attrs = [(''content'', PyStr ''  Maybe Code. '')], str_of = []\<rparr>)"
    by (simp add: retry_with_backoff_def py_range_3 invoke_chain_def)
  show ?thesis
    using classifier_decision_is_normalized_text [OF r, of "''  Maybe Code. ''"] by (simp add: ev)
qed

section \<open>Properties of the response parser\<close>

lemma parse_lines_append:
  "parse_lines st (xs @ ys) = parse_lines (parse_lines st xs) ys"
  by (induction xs arbitrary: st) simp_all

lemma dash_line:
  assumes "startswith line ''-''"
  shows "line \<noteq> []"
    and "\<not> startswith line ''MAIN_ANSWER:''"
    and "\<not> startswith line ''SUPPORTING_DETAILS:''"
  using assms by (cases line; simp add: startswith_def)+

lemma parse_line_dash:
  assumes "startswith (strip l) ''-''"
  shows "parse_line st l =
     (if fst st = Some supporting_details_section
      then (fst st,
            (snd st)\<lparr>supporting_details := supporting_details (snd st) @ [strip (drop 1 (strip l))]\<rparr>)
      else st)"
  using assms dash_line [OF assms] by (simp add: parse_line_def Let_def)

lemma parse_line_section:
  assumes "\<not> startswith (strip l) ''SUPPORTING_DETAILS:''"
    and "fst st \<noteq> Some supporting_details_section"
  shows "fst (parse_line st l) \<noteq> Some supporting_details_section"
  using assms by (simp add: parse_line_def Let_def)

lemma parse_lines_section:
  assumes "\<forall>p\<in>set ls. \<not> startswith (strip p) ''SUPPORTING_DETAILS:''"
    and "fst st \<noteq> Some supporting_details_section"
  shows "fst (parse_lines st ls) \<noteq> Some supporting_details_section"
  using assms
proof (induction ls arbitrary: st)
  case Nil
  then show ?case by simp
next
  case (Cons p ps)
  then have "fst (parse_line st p) \<noteq> Some supporting_details_section"
    using parse_line_section [of p st] by simp
  then show ?case
    using Cons.IH [of "parse_line st p"] Cons.prems(1) by simp
qed

lemma parse_line_no_marker:
  assumes "\<not> startswith (strip l) ''MAIN_ANSWER:''"
    and "\<not> startswith (strip l) ''SUPPORTING_DETAILS:''"
    and "fst st \<noteq> Some supporting_details_section"
  shows "parse_line st l = st"
  using assms by (simp add: parse_line_def Let_def)

lemma parse_lines_no_marker:
  assumes "\<forall>l\<in>set ls. \<not> startswith (strip l) ''MAIN_ANSWER:''
              \<and> \<not> startswith (strip l) ''SUPPORTING_DETAILS:''"
    and "fst st \<noteq> Some supporting_details_section"
  shows "parse_lines st ls = st"
  using assms
proof (induction ls arbitrary: st)
  case Nil
  then show ?case by simp
next
  case (Cons l ls)
  then have "parse_line st l = st"
    using parse_line_no_marker [of l st] by simp
  then show ?case
    using Cons by simp
qed

lemma parse_response_of_text:
  assumes "map_of (attrs r) ''content'' = Some (PyStr body)
      \<or> (map_of (attrs r) ''content'' = None \<and> str_of r = body)"
  shows "parse_response r =
     Inr \<lparr>content = snd (parse_lines initial_content (split CHR 0x0A (strip body))),
          metadata = \<lparr>response_id = getattr r ''id'' (PyStr []),
                      model = getattr r ''model'' (PyStr []),
                      run_id = getattr r ''run_id'' (PyStr []),
                      stop_reason = getattr r ''stop_reason'' (PyStr []),
                      token_usage = getattr r ''usage'' (PyDict [])\<rparr>\<rparr>"
  using assms by (auto simp: parse_response_def hasattr_def getattr_def Let_def)

lemmas string_defs =
  strip_def lstrip_def rstrip_def isspace_def whitespace_def startswith_def replace_def

lemma example_lines:
  "snd (parse_lines initial_content
      (split CHR 0x0A (strip ''MAIN_ANSWER: Use a for loop\<newline>SUPPORTING_DETAILS:\<newline>- Initialize counter\<newline>- Check condition\<newline>- Increment''))) =
     \<lparr>main_answer = ''Use a for loop'',
      supporting_details = [''Initialize counter'', ''Check condition'', ''Increment'']\<rparr>"
  by (simp add: string_defs initial_content_def parse_line_def)

text \<open>
  Claim C5. A response whose text is the five lines
  \<^verbatim>\<open>MAIN_ANSWER: Use a for loop\<close>, \<^verbatim>\<open>SUPPORTING_DETAILS:\<close>, \<^verbatim>\<open>- Initialize counter\<close>,
  \<^verbatim>\<open>- Check condition\<close>, \<^verbatim>\<open>- Increment\<close> (the \<^verbatim>\<open>content\<close> attribute, or the text of the
  object when it has no such attribute) is parsed to the main answer
  \<^verbatim>\<open>Use a for loop\<close> and the three details, in the order of the input.
\<close>

theorem parses_documented_example:
  assumes "map_of (attrs r) ''content'' =
        Some (PyStr ''MAIN_ANSWER: Use a for loop\<newline>SUPPORTING_DETAILS:\<newline>- Initialize counter\<newline>- Check condition\<newline>- Increment'')
      \<or> (map_of (attrs r) ''content'' = None
          \<and> str_of r = ''MAIN_ANSWER: Use a for loop\<newline>SUPPORTING_DETAILS:\<newline>- Initialize counter\<newline>- Check condition\<newline>- Increment'')"
  shows "\<exists>s. parse_response r = Inr s
       \<and> main_answer (content s) = ''Use a for loop''
       \<and> supporting_details (content s) = [''Initialize counter'', ''Check condition'', ''Increment'']"
  by (simp add: parse_response_of_text [OF assms] example_lines)

theorem parses_documented_example_witness:
  "\<exists>s. parse_response
         \<lparr>attrs = [(''content'', PyStr ''MAIN_ANSWER: Use a for loop\<newline>SUPPORTING_DETAILS:\<newline>- Initialize counter\<newline>- Check condition\<newline>- Increment''),
                   (''id'', PyStr ''msg_1'')],
          str_of = ''content=...''\<rparr> = Inr s
       \<and> main_answer (content s) = ''Use a for loop''
       \<and> supporting_details (content s) = [''Initialize counter'', ''Check condition'', ''Increment'']"
  using parses_documented_example [of "\<lparr>attrs = [(''content'', PyStr ''MAIN_ANSWER: Use a for loop\<newline>SUPPORTING_DETAILS:\<newline>- Initialize counter\<newline>- Check condition\<newline>- Increment''),
                   (''id'', PyStr ''msg_1'')],
          str_of = ''content=...''\<rparr>"]
  by simp

lemma stray_example:
  "parse_response \<lparr>attrs = [(''content'', PyStr ''- stray\<newline>MAIN_ANSWER: X'')], str_of = []\<rparr> =
     Inr \<lparr>content = \<lparr>main_answer = ''X'', supporting_details = []\<rparr>,
          metadata = \<lparr>response_id = PyStr [], model = PyStr [], run_id = PyStr [],
                      stop_reason = PyStr [], token_usage = PyDict []\<rparr>\<rparr>"
  by (simp add: parse_response_def hasattr_def getattr_def string_defs initial_content_def
        parse_line_def)

text \<open>
  Claim C6. A line that starts with \<^verbatim>\<open>-\<close> (once stripped, as the loop strips every line)
  coming after the lines \<open>pre\<close>: when the section reached after \<open>pre\<close> is the supporting
  details, the line without its first character, stripped, is added at the end of the
  details, and nothing else changes; in every other section (none yet, or the main answer)
  the line changes nothing. In particular it changes nothing when no line before it starts
  with \<^verbatim>\<open>SUPPORTING_DETAILS:\<close>. The text \<^verbatim>\<open>- stray\<close>, \<^verbatim>\<open>MAIN_ANSWER: X\<close> gives no details
  and the main answer \<^verbatim>\<open>X\<close>.
\<close>

theorem dash_line_is_detail_only_in_supporting_details:
  assumes "startswith (strip l) ''-''"
  shows "parse_lines st (pre @ [l]) =
           (if fst (parse_lines st pre) = Some supporting_details_section
            then (fst (parse_lines st pre),
                  (snd (parse_lines st pre))
                    \<lparr>supporting_details :=
                       supporting_details (snd (parse_lines st pre)) @ [strip (drop 1 (strip l))]\<rparr>)
            else parse_lines st pre)
       \<and> ((\<forall>p\<in>set pre. \<not> startswith (strip p) ''SUPPORTING_DETAILS:'') \<longrightarrow>
            parse_lines initial_content (pre @ [l]) = parse_lines initial_content pre)
       \<and> parse_response \<lparr>attrs = [(''content'', PyStr ''- stray\<newline>MAIN_ANSWER: X'')], str_of = []\<rparr> =
           Inr \<lparr>content = \<lparr>main_answer = ''X'', supporting_details = []\<rparr>,
                metadata = \<lparr>response_id = PyStr [], model = PyStr [], run_id = PyStr [],
                            stop_reason = PyStr [], token_usage = PyDict []\<rparr>\<rparr>"
proof -
  have step: "parse_lines st (pre @ [l]) = parse_line (parse_lines st pre) l" for st
    by (simp add: parse_lines_append)
  have "parse_lines initial_content (pre @ [l]) = parse_lines initial_content pre"
    if "\<forall>p\<in>set pre. \<not> startswith (strip p) ''SUPPORTING_DETAILS:''"
  proof -
    have "fst (parse_lines initial_content pre) \<noteq> Some supporting_details_section"
      using that by (rule parse_lines_section) (simp add: initial_content_def)
    then show ?thesis
      by (simp add: step parse_line_dash [OF assms])
  qed
  then show ?thesis
    by (simp add: step parse_line_dash [OF assms] stray_example)
qed

theorem dash_line_is_detail_only_in_supporting_details_witness:
  "parse_lines initial_content [''SUPPORTING_DETAILS:'', '' - one ''] =
     (Some supporting_details_section, \<lparr>main_answer = [], supporting_details = [''one'']\<rparr>)
   \<and> parse_lines initial_content [''MAIN_ANSWER: X'', ''- stray''] =
     (Some main_answer_section, \<lparr>main_answer = ''X'', supporting_details = []\<rparr>)
   \<and> parse_lines initial_content [''- stray''] = initial_content"
proof -
  have dash: "startswith (strip '' - one '') ''-''" "startswith (strip ''- stray'') ''-''"
    by (simp_all add: string_defs)
  show ?thesis
    using dash_line_is_detail_only_in_supporting_details [OF dash(1), of initial_content "[''SUPPORTING_DETAILS:'']"]
      dash_line_is_detail_only_in_supporting_details [OF dash(2), of initial_content "[''MAIN_ANSWER: X'']"]
      dash_line_is_detail_only_in_supporting_details [OF dash(2), of initial_content "[]"]
    by (simp add: string_defs initial_content_def parse_line_def)
qed

text \<open>
  Claim C7 says that \<^verbatim>\<open>parse_response\<close> returns a record for every raw response. It
  does not for a response whose \<^verbatim>\<open>content\<close> attribute is not a \<^verbatim>\<open>str\<close>: with
  \<^verbatim>\<open>content = None\<close>, \<^verbatim>\<open>content.strip()\<close> raises \<^verbatim>\<open>AttributeError\<close>.
\<close>

theorem parse_response_raises_on_content_none:
  "parse_response \<lparr>attrs = [(''content'', PyNone)], str_of = ''content=None''\<rparr> = Inl AttributeError"
  by (simp add: parse_response_def hasattr_def getattr_def)

text \<open>
  Claim C7, amended. For every raw response whose text is a \<^verbatim>\<open>str\<close> (its \<^verbatim>\<open>content\<close>
  attribute, or \<^verbatim>\<open>str\<close> of the object when it has no such attribute),
  \<^verbatim>\<open>parse_response\<close> returns a record and raises nothing. In the record every metadata
  field whose attribute is absent is the empty string (the empty dictionary for the token
  usage), and when no line of the text starts with \<^verbatim>\<open>MAIN_ANSWER:\<close> or
  \<^verbatim>\<open>SUPPORTING_DETAILS:\<close> the main answer and the details are empty.
\<close>

theorem parse_response_total_on_text:
  assumes "map_of (attrs r) ''content'' = Some (PyStr body)
      \<or> (map_of (attrs r) ''content'' = None \<and> str_of r = body)"
  shows "\<exists>s. parse_response r = Inr s
       \<and> (\<not> hasattr r ''id'' \<longrightarrow> response_id (metadata s) = PyStr [])
       \<and> (\<not> hasattr r ''model'' \<longrightarrow> model (metadata s) = PyStr [])
       \<and> (\<not> hasattr r ''run_id'' \<longrightarrow> run_id (metadata s) = PyStr [])
       \<and> (\<not> hasattr r ''stop_reason'' \<longrightarrow> stop_reason (metadata s) = PyStr [])
       \<and> (\<not> hasattr r ''usage'' \<longrightarrow> token_usage (metadata s) = PyDict [])
       \<and> ((\<forall>l\<in>set (split CHR 0x0A (strip body)).
              \<not> startswith (strip l) ''MAIN_ANSWER:''
              \<and> \<not> startswith (strip l) ''SUPPORTING_DETAILS:'') \<longrightarrow>
            main_answer (content s) = [] \<and> supporting_details (content s) = [])"
proof -
  have "parse_lines initial_content (split CHR 0x0A (strip body)) = initial_content"
    if "\<forall>l\<in>set (split CHR 0x0A (strip body)).
          \<not> startswith (strip l) ''MAIN_ANSWER:'' \<and> \<not> startswith (strip l) ''SUPPORTING_DETAILS:''"
    using that by (rule parse_lines_no_marker) (simp add: initial_content_def)
  then show ?thesis
    by (auto simp: parse_response_of_text [OF assms] hasattr_def getattr_def initial_content_def)
qed

theorem parse_response_total_on_text_witness:
  "parse_response \<lparr>attrs = [], str_of = ''I cannot answer that.''\<rparr> =
     Inr \<lparr>content = \<lparr>main_answer = [], supporting_details = []\<rparr>,
          metadata = \<lparr>response_id = PyStr [], model = PyStr [], run_id = PyStr [],
                      stop_reason = PyStr [], token_usage = PyDict []\<rparr>\<rparr>
   \<and> (\<exists>s. parse_response \<lparr>attrs = [(''content'', PyStr [])], str_of = []\<rparr> = Inr s)"
  using parse_response_total_on_text [of "\<lparr>attrs = [], str_of = ''I cannot answer that.''\<rparr>" "''I cannot answer that.''"]
    parse_response_total_on_text [of "\<lparr>attrs = [(''content'', PyStr [])], str_of = []\<rparr>" "[]"]
  by (simp add: parse_response_def hasattr_def getattr_def string_defs initial_content_def
        parse_line_def)

text \<open>
  Claim C4 says that a line starting with \<^verbatim>\<open>MAIN_ANSWER:\<close> gives the rest of the line,
  with only that prefix taken off. \<^verbatim>\<open>parse_response\<close> takes the marker off with
  \<^verbatim>\<open>line.replace("MAIN_ANSWER:", "")\<close>, which removes every occurrence: on the line
  \<^verbatim>\<open>MAIN_ANSWER: see MAIN_ANSWER: below\<close> the main answer is \<^verbatim>\<open>see  below\<close>, not
  \<^verbatim>\<open>see MAIN_ANSWER: below\<close>.
\<close>

theorem main_answer_marker_removed_everywhere:
  "parse_response \<lparr>attrs = [(''content'', PyStr ''MAIN_ANSWER: see MAIN_ANSWER: below'')], str_of = []\<rparr> =
     Inr \<lparr>content = \<lparr>main_answer = ''see  below'', supporting_details = []\<rparr>,
          metadata = \<lparr>response_id = PyStr [], model = PyStr [], run_id = PyStr [],
                      stop_reason = PyStr [], token_usage = PyDict []\<rparr>\<rparr>"
  by (simp add: parse_response_def hasattr_def getattr_def string_defs initial_content_def
        parse_line_def)

end
